theory Spec2Isabelle
  imports Main "HOL-Library.Sublist" "HOL-Library.AList"
begin

section \<open>Python strings\<close>

text \<open>
  A Python \<open>str\<close> is modelled as a \<open>string\<close>; every \<open>char\<close> stands for one code point
  in the range 0..255.  The characters that \<open>str.strip()\<close>, \<open>str.isspace()\<close> and the
  regular expression class \<open>\s\<close> treat as whitespace are, in that range, the code points
  9..13, 28..32, 133 and 160.
\<close>

definition py_isspace :: "char \<Rightarrow> bool" where
  "py_isspace c =
     (let n = (of_char c :: nat)
      in (9 \<le> n \<and> n \<le> 13) \<or> (28 \<le> n \<and> n \<le> 32) \<or> n = 133 \<or> n = 160)"

definition lstrip :: "string \<Rightarrow> string" where
  "lstrip s = dropWhile py_isspace s"

definition rstrip :: "string \<Rightarrow> string" where
  "rstrip s = rev (dropWhile py_isspace (rev s))"

text \<open>\<open>s.strip()\<close>: whitespace removed at both ends.\<close>

definition strip :: "string \<Rightarrow> string" where
  "strip s = rstrip (lstrip s)"

abbreviation newline :: char where
  "newline \<equiv> CHR 0x0A"

abbreviation backslash :: char where
  "backslash \<equiv> CHR 0x5C"

text \<open>\<open>s.split(c)\<close> for a separator of one character: never an empty list.\<close>

fun split_char :: "char \<Rightarrow> string \<Rightarrow> string list" where
  "split_char sep [] = [[]]"
| "split_char sep (c # cs) =
     (if c = sep then [] # split_char sep cs
      else (case split_char sep cs of
              [] \<Rightarrow> [[c]]
            | w # ws \<Rightarrow> (c # w) # ws))"

text \<open>
  \<open>s.split(c, 1)\<close>: \<open>None\<close> when \<open>c\<close> does not occur in \<open>s\<close> (Python returns a list
  of length one), otherwise the text before and the text after the first \<open>c\<close>.
\<close>

fun split_once :: "char \<Rightarrow> string \<Rightarrow> (string \<times> string) option" where
  "split_once sep [] = None"
| "split_once sep (c # cs) =
     (if c = sep then Some ([], cs)
      else (case split_once sep cs of
              None \<Rightarrow> None
            | Some (a, b) \<Rightarrow> Some (c # a, b)))"

text \<open>
  The first occurrence of a non-empty substring: the text before it and the text after
  it.  \<open>sub in s\<close> is \<open>find_sub sub s \<noteq> None\<close>.
\<close>

fun find_sub :: "string \<Rightarrow> string \<Rightarrow> (string \<times> string) option" where
  "find_sub sub [] = (if sub = [] then Some ([], []) else None)"
| "find_sub sub (c # cs) =
     (if prefix sub (c # cs) then Some ([], drop (length sub) (c # cs))
      else (case find_sub sub cs of
              None \<Rightarrow> None
            | Some (a, b) \<Rightarrow> Some (c # a, b)))"

definition contains :: "string \<Rightarrow> string \<Rightarrow> bool" where
  "contains sub s = (find_sub sub s \<noteq> None)"

section \<open>Value canonicalizer (\<open>llm_backend.clean_brand_name\<close>)\<close>

text \<open>The characters of the negative lookahead \<open>(?![\\/"bfnrtu])\<close>.\<close>

definition valid_escape :: "char \<Rightarrow> bool" where
  "valid_escape d = (d \<in> set [backslash, CHR ''/'', CHR 0x22, CHR ''b'', CHR ''f'',
                               CHR ''n'', CHR ''r'', CHR ''t'', CHR ''u''])"

text \<open>
  \<open>re.sub(r'\\(?![\\/"bfnrtu])', r'\\\\', name)\<close>: every backslash whose next
  character is not a valid escape character (or that ends the string) is replaced by two
  backslashes.  The lookahead consumes nothing, so every backslash is looked at.
\<close>

fun fix_escapes :: "string \<Rightarrow> string" where
  "fix_escapes [] = []"
| "fix_escapes [c] = (if c = backslash then [backslash, backslash] else [c])"
| "fix_escapes (c # d # cs) =
     (if c = backslash \<and> \<not> valid_escape d
      then backslash # backslash # fix_escapes (d # cs)
      else c # fix_escapes (d # cs))"

text \<open>\<open>re.sub(r'\s+', ' ', name)\<close>: every maximal run of whitespace becomes one space.\<close>

function collapse_ws :: "string \<Rightarrow> string" where
  "collapse_ws [] = []"
| "collapse_ws (c # cs) =
     (if py_isspace c then CHR '' '' # collapse_ws (dropWhile py_isspace cs)
      else c # collapse_ws cs)"
  by pat_completeness auto
termination
  by (relation "measure length") (auto simp: length_dropWhile_le less_Suc_eq_le)

definition clean_brand_name :: "string \<Rightarrow> string" where
  "clean_brand_name name = strip (collapse_ws (fix_escapes name))"

text \<open>A backslash that \<open>fix_escapes\<close> doubles occurs in the string.\<close>

fun bad_escape :: "string \<Rightarrow> bool" where
  "bad_escape [] = False"
| "bad_escape [c] = (c = backslash)"
| "bad_escape (c # d # cs) = ((c = backslash \<and> \<not> valid_escape d) \<or> bad_escape (d # cs))"


section \<open>Response parser (\<open>llm_backend.process_llm_response\<close>)\<close>

text \<open>
  The body of the loop over the lines of a mapping text.  The same loop is written out in
  \<open>llm_backend.process_llm_response\<close>, in \<open>data_processor.calculate_standardization_stats\<close>
  and in the review and export code of \<open>data_standardizer_page\<close>: the line is stripped; if
  it contains \<open>=\<close> it is split at the first \<open>=\<close>, both parts are stripped, and the pair is
  appended when both parts are non-empty.
\<close>

definition parse_mapping_line :: "string \<Rightarrow> (string \<times> string) list" where
  "parse_mapping_line line0 =
     (let line = strip line0
      in if CHR ''='' \<in> set line
         then (case split_once (CHR ''='') line of
                 None \<Rightarrow> []
               | Some (p0, p1) \<Rightarrow>
                   (let original = strip p0; canonical = strip p1
                    in if original \<noteq> [] \<and> canonical \<noteq> []
                       then [(original, canonical)] else []))
         else [])"

definition parse_mapping_lines :: "string \<Rightarrow> (string \<times> string) list" where
  "parse_mapping_lines text = concat (map parse_mapping_line (split_char newline text))"

text \<open>
  The parser in the words of the specification: split the text into lines; split each
  line on the first \<open>=\<close> only, trim both sides; skip a line without \<open>=\<close> or with an empty
  side; keep the surviving pairs in line order.
\<close>

definition spec_parse_line :: "string \<Rightarrow> (string \<times> string) list" where
  "spec_parse_line line =
     (case split_once (CHR ''='') line of
        None \<Rightarrow> []
      | Some (l, r) \<Rightarrow> (if strip l = [] \<or> strip r = [] then [] else [(strip l, strip r)]))"

definition spec_parse_mapping :: "string \<Rightarrow> (string \<times> string) list" where
  "spec_parse_mapping text = concat (map spec_parse_line (split_char newline text))"

text \<open>
  JSON values as \<open>json.loads\<close> returns them.  Numbers are never inspected by the code
  modelled here, so one constructor stands for all of them.
\<close>

datatype json =
    JNull
  | JBool bool
  | JNum int
  | JStr string
  | JArr "json list"
  | JObj "(string \<times> json) list"

text \<open>
  \<open>json.loads\<close> belongs to the Python library and is a parameter of the model:
  \<open>None\<close> stands for a raised \<open>JSONDecodeError\<close>.
\<close>

type_synonym json_loads = "string \<Rightarrow> json option"

text \<open>
  \<open>re.search(r'\[.*\]', s, re.DOTALL | re.MULTILINE)\<close>: the leftmost match starts at the
  first \<open>[\<close> and, \<open>.*\<close> being greedy and matching newlines, ends at the last \<open>]\<close>; there is
  no match when no \<open>]\<close> follows the first \<open>[\<close>.
\<close>

definition find_json_array :: "string \<Rightarrow> string option" where
  "find_json_array s =
     (case dropWhile (\<lambda>c. c \<noteq> CHR ''['') s of
        [] \<Rightarrow> None
      | b # body \<Rightarrow>
          (if CHR '']'' \<in> set body
           then Some (b # rev (dropWhile (\<lambda>c. c \<noteq> CHR '']'') (rev body)))
           else None))"

definition parse_error_message :: "string \<Rightarrow> string" where
  "parse_error_message column_id =
     ''Error: Could not parse response for '' @ column_id @
     ''. Expected format: original_name=canonical_name''"

text \<open>
  \<open>str(e)\<close> of the \<open>AttributeError\<close> that \<open>None.strip()\<close> raises, after the prefix that
  the handler of \<open>process_llm_response\<close> puts before it.
\<close>

definition none_strip_message :: string where
  "none_strip_message =
     ''Error: '' @ [CHR 0x27] @ ''NoneType'' @ [CHR 0x27] @ '' object has no attribute '' @
     [CHR 0x27] @ ''strip'' @ [CHR 0x27]"

text \<open>
  \<open>process_llm_response(output, column_id)\<close>.  \<open>output\<close> is \<open>None\<close> when
  \<open>call_llm_parallel\<close> caught an exception whose message is empty; \<open>output.strip()\<close> then
  raises inside the \<open>try\<close> and the handler returns the message of that exception.
\<close>

definition process_llm_response :: "json_loads \<Rightarrow> string option \<Rightarrow> string \<Rightarrow> string" where
  "process_llm_response loads output column_id =
     (case output of
        None \<Rightarrow> none_strip_message
      | Some out \<Rightarrow>
          (let cleaned_output = strip out
           in if parse_mapping_lines cleaned_output \<noteq> [] then cleaned_output
              else (case find_json_array cleaned_output of
                      None \<Rightarrow> parse_error_message column_id
                    | Some parsed_output \<Rightarrow>
                        (case loads parsed_output of
                           None \<Rightarrow> parse_error_message column_id
                         | Some v \<Rightarrow> parsed_output))))"

section \<open>LLM calls (\<open>llm_backend.call_llm\<close>, \<open>llm_backend.call_llm_parallel\<close>)\<close>

text \<open>
  The model is an opaque collaborator: a function from the prompt to the text it answers
  (\<open>Inr\<close>) or to \<open>str(e)\<close> of the exception the request raises (\<open>Inl\<close>).  The module
  variable \<open>llm\<close> is \<open>None\<close> when the client could not be initialised.
\<close>

type_synonym llm = "string \<Rightarrow> string + string"

definition call_llm :: "llm option \<Rightarrow> string \<Rightarrow> string" where
  "call_llm llm prompt =
     (case llm of
        None \<Rightarrow> ''Error: LLM not initialized''
      | Some predict \<Rightarrow>
          (case predict prompt of
             Inl e \<Rightarrow> ''Error calling LLM: '' @ e
           | Inr text \<Rightarrow> strip text))"

definition none_invoke_message :: string where
  "none_invoke_message =
     [CHR 0x27] @ ''NoneType'' @ [CHR 0x27] @ '' object has no attribute '' @
     [CHR 0x27] @ ''invoke'' @ [CHR 0x27]"

text \<open>\<open>call_llm_parallel\<close> returns \<open>(column_id, result, None)\<close> or \<open>(column_id, None, str(e))\<close>.\<close>

definition call_llm_parallel ::
  "llm option \<Rightarrow> string \<Rightarrow> string \<Rightarrow> string \<times> string option \<times> string option" where
  "call_llm_parallel llm prompt column_id =
     (case llm of
        None \<Rightarrow> (column_id, None, Some none_invoke_message)
      | Some invoke \<Rightarrow>
          (case invoke prompt of
             Inl e \<Rightarrow> (column_id, None, Some e)
           | Inr result \<Rightarrow> (column_id, Some result, None)))"

section \<open>Mapping generation (\<open>data_processor.generate_mappings_for_all_columns\<close>)\<close>

text \<open>
  A task is the triple \<open>(column_id, initial_prompt, unique_values)\<close> that the function
  appends to \<open>tasks\<close> for one column: the column identity, the prompt built from the
  column's Value Set, and the Value Set itself.  A Python \<open>dict\<close> with string keys is an
  association list in insertion order; \<open>d[k] = v\<close> is \<open>AList.update k v d\<close>.
\<close>

type_synonym task = "string \<times> string \<times> string list"

type_synonym mapping_table = "(string \<times> string) list"

text \<open>
  The body of the loop over \<open>as_completed\<close>: the outcome of one finished task is written
  to \<open>all_column_mappings[column_id]\<close>.  \<open>if error:\<close> is false for \<open>None\<close> and for the
  empty string.  \<open>call_llm_parallel\<close> catches every exception itself, so
  \<open>future.result()\<close> does not raise.
\<close>

definition store_result ::
  "json_loads \<Rightarrow> llm option \<Rightarrow> task \<Rightarrow> mapping_table \<Rightarrow> mapping_table" where
  "store_result loads llm t all_column_mappings =
     (case t of (column_id, prompt, unique_values) \<Rightarrow>
        (case call_llm_parallel llm prompt column_id of
           (result_column_id, output, error) \<Rightarrow>
             (case error of
                None \<Rightarrow>
                  AList.update column_id (process_llm_response loads output column_id)
                    all_column_mappings
              | Some e \<Rightarrow>
                  (if e \<noteq> []
                   then AList.update column_id (''Error: '' @ e) all_column_mappings
                   else AList.update column_id (process_llm_response loads output column_id)
                          all_column_mappings))))"

text \<open>
  The function from the point where \<open>tasks\<close> has been built.  The futures complete in any
  order; \<open>tasks\<close> is the list of the submitted tasks in the order of their completion.
  Without a client the function returns the empty table before any task is built.
\<close>

definition generate_mappings_for_all_columns ::
  "json_loads \<Rightarrow> llm option \<Rightarrow> task list \<Rightarrow> mapping_table" where
  "generate_mappings_for_all_columns loads llm tasks =
     (case llm of
        None \<Rightarrow> []
      | Some f \<Rightarrow> fold (store_result loads llm) tasks [])"

section \<open>Refinement (\<open>data_processor.process_feedback_for_all_columns\<close>)\<close>

text \<open>
  A feedback entry is the pair of the \<open>"Brand Name"\<close> and the \<open>"Classified As"\<close> fields.
  \<open>all_column_feedback\<close> is only looked up by key.  The prompt text, built by
  \<open>refinement_prompt_template(mapping_output, json.dumps(feedback_list, indent=2))\<close>, is
  only handed to the model, so its construction is a parameter.  The second component of
  the state records the calls of \<open>call_llm\<close>: the column they are made for and the prompt.
\<close>

type_synonym feedback = "(string \<times> string) list"

definition refine_column ::
  "json_loads \<Rightarrow> llm option \<Rightarrow> (string \<Rightarrow> feedback \<Rightarrow> string) \<Rightarrow>
   (string \<rightharpoonup> feedback) \<Rightarrow> string \<times> string \<Rightarrow>
   mapping_table \<times> (string \<times> string) list \<Rightarrow> mapping_table \<times> (string \<times> string) list" where
  "refine_column loads llm refinement_prompt all_column_feedback entry st =
     (case entry of (column_id, mapping_output) \<Rightarrow>
      case st of (refined_mappings, calls) \<Rightarrow>
        (case all_column_feedback column_id of
           None \<Rightarrow> (AList.update column_id mapping_output refined_mappings, calls)
         | Some feedback_list \<Rightarrow>
             (if feedback_list \<noteq> []
              then (let prompt = refinement_prompt mapping_output feedback_list;
                        refined_response = call_llm llm prompt;
                        refined_output = process_llm_response loads (Some refined_response) column_id
                    in (AList.update column_id refined_output refined_mappings,
                        calls @ [(column_id, prompt)]))
              else (AList.update column_id mapping_output refined_mappings, calls))))"

definition process_feedback_for_all_columns ::
  "json_loads \<Rightarrow> llm option \<Rightarrow> (string \<Rightarrow> feedback \<Rightarrow> string) \<Rightarrow>
   mapping_table \<Rightarrow> (string \<rightharpoonup> feedback) \<Rightarrow> mapping_table \<times> (string \<times> string) list" where
  "process_feedback_for_all_columns loads llm refinement_prompt all_column_mappings
     all_column_feedback =
     fold (refine_column loads llm refinement_prompt all_column_feedback)
       all_column_mappings ([], [])"

section \<open>Column clustering (\<open>column_analysis_page.parse_llm_clustering_response\<close>)\<close>

datatype py_error = ValueError | IndexError | TypeError

text \<open>
  \<open>s.split(sep)\<close> for a separator string: Python raises \<open>ValueError\<close> for the empty
  separator; otherwise the pieces between the occurrences, found from the left without
  overlap.
\<close>

function split_pieces :: "string \<Rightarrow> string \<Rightarrow> string list" where
  "split_pieces sep s =
     (if sep = [] then []
      else (case find_sub sep s of
              None \<Rightarrow> [s]
            | Some (before, rest) \<Rightarrow> before # split_pieces sep rest))"
  by pat_completeness auto
termination
proof (relation "measure (\<lambda>(sep, s). length s)")
  show "wf (measure (\<lambda>(sep, s). length s))" by simp
next
  fix sep s :: string and x2 x y
  assume ne: "sep \<noteq> []" and f: "find_sub sep s = Some x2" and x: "(x, y) = x2"
  have "find_sub sep s = Some (a, b) \<Longrightarrow> length b < length s" for a b
  proof (induction s arbitrary: a)
    case Nil
    with ne show ?case by simp
  next
    case (Cons c cs)
    show ?case
    proof (cases "prefix sep (c # cs)")
      case True
      with Cons.prems have "b = drop (length sep) (c # cs)" by simp
      with ne show ?thesis by (cases sep) simp_all
    next
      case False
      with Cons.prems obtain a' where "find_sub sep cs = Some (a', b)"
        by (auto split: option.splits)
      from Cons.IH [OF this] show ?thesis by simp
    qed
  qed
  with f x show "((sep, y), (sep, s)) \<in> measure (\<lambda>(sep, s). length s)"
    by auto
qed

declare split_pieces.simps [simp del]

definition py_split :: "string \<Rightarrow> string \<Rightarrow> py_error + string list" where
  "py_split sep s = (if sep = [] then Inl ValueError else Inr (split_pieces sep s))"

text \<open>\<open>xs[i]\<close> for \<open>i \<ge> 0\<close>: \<open>IndexError\<close> out of range.\<close>

definition item :: "'a list \<Rightarrow> nat \<Rightarrow> py_error + 'a" where
  "item xs i = (if i < length xs then Inr (xs ! i) else Inl IndexError)"

text \<open>
  Lines 252 to 258: the response is stripped and a Markdown code fence around the JSON
  text is removed.
\<close>

definition strip_code_fence :: "string \<Rightarrow> py_error + string" where
  "strip_code_fence response =
     (let cleaned_response = strip response
      in if contains ''```json'' cleaned_response
         then (case py_split ''```json'' cleaned_response of
                 Inl e \<Rightarrow> Inl e
               | Inr ps \<Rightarrow>
                   (case item ps 1 of
                      Inl e \<Rightarrow> Inl e
                    | Inr p \<Rightarrow>
                        (case py_split ''```'' p of
                           Inl e \<Rightarrow> Inl e
                         | Inr qs \<Rightarrow> item qs 0)))
         else if contains ''```'' cleaned_response
         then (case py_split ''```'' cleaned_response of
                 Inl e \<Rightarrow> Inl e
               | Inr ps \<Rightarrow> item ps 1)
         else Inr cleaned_response)"

text \<open>\<open>set(xs)\<close> raises \<open>TypeError\<close> when an element is a list or a dict.\<close>

fun hashable :: "json \<Rightarrow> bool" where
  "hashable (JArr xs) = False"
| "hashable (JObj kvs) = False"
| "hashable v = True"

text \<open>\<open>isinstance(v, list)\<close>.\<close>

fun is_list :: "json \<Rightarrow> bool" where
  "is_list (JArr xs) = True"
| "is_list v = False"

text \<open>The elements of the groups of the response that are lists.\<close>

fun cluster_members :: "json \<Rightarrow> json list" where
  "cluster_members (JArr xs) = xs"
| "cluster_members v = []"

definition all_columns_in_response :: "json list \<Rightarrow> json list" where
  "all_columns_in_response clusters = concat (map cluster_members clusters)"

text \<open>
  \<open>cluster[:] = [col for col in cluster if col in actual_column_names]\<close>, for the groups
  that are lists.  The column names are strings, and a JSON value equals a string only
  when it is that string.
\<close>

fun keep_actual :: "string list \<Rightarrow> json \<Rightarrow> json" where
  "keep_actual actual_column_names (JArr xs) =
     JArr (filter (\<lambda>col. col \<in> set (map JStr actual_column_names)) xs)"
| "keep_actual actual_column_names v = v"

text \<open>
  \<open>missing_columns = set(actual_column_names) - set(all_columns_in_response)\<close> and
  \<open>extra_columns = set(all_columns_in_response) - set(actual_column_names)\<close>.  A Python
  set is kept as a list without duplicates; \<open>extra_columns\<close> is only tested for being
  empty.
\<close>

definition missing_columns :: "string list \<Rightarrow> json list \<Rightarrow> string list" where
  "missing_columns actual_column_names in_response =
     remdups (filter (\<lambda>c. JStr c \<notin> set in_response) actual_column_names)"

definition extra_columns :: "string list \<Rightarrow> json list \<Rightarrow> json list" where
  "extra_columns actual_column_names in_response =
     filter (\<lambda>col. col \<notin> set (map JStr actual_column_names)) in_response"

text \<open>
  \<open>for col in missing_columns\<close> visits the set in an order that the language leaves
  open.  Only that order is a parameter: \<open>iter_rank\<close> ranks the column names, and the
  loop visits the elements of the set by ascending rank.  Whatever the rank, the loop
  visits every element of the set once; every order of visit is that of some rank.
\<close>

definition set_iteration :: "(string \<Rightarrow> nat) \<Rightarrow> string list \<Rightarrow> string list" where
  "set_iteration iter_rank elements = sort_key iter_rank elements"

text \<open>Lines 263 to 295: the decoded value is validated and repaired.\<close>

definition validate_clusters ::
  "(string \<Rightarrow> nat) \<Rightarrow> json \<Rightarrow> string list \<Rightarrow> py_error + json list" where
  "validate_clusters iter_rank decoded actual_column_names =
     (case decoded of
        JArr clusters \<Rightarrow>
          (let in_response = all_columns_in_response clusters
           in if \<not> list_all hashable in_response then Inl TypeError
              else (let clusters1 =
                          clusters @
                          map (\<lambda>col. JArr [JStr col])
                            (set_iteration iter_rank
                               (missing_columns actual_column_names in_response))
                    in if extra_columns actual_column_names in_response \<noteq> []
                       then Inr (map (keep_actual actual_column_names) clusters1)
                       else Inr clusters1))
      | JNull \<Rightarrow> Inr []
      | JBool b \<Rightarrow> Inr []
      | JNum n \<Rightarrow> Inr []
      | JStr t \<Rightarrow> Inr []
      | JObj kvs \<Rightarrow> Inr [])"

text \<open>The fallback of the \<open>JSONDecodeError\<close> handler: every column as its own group.\<close>

definition fallback_clusters :: "string list \<Rightarrow> json list" where
  "fallback_clusters actual_column_names = map (\<lambda>col. JArr [JStr col]) actual_column_names"

text \<open>
  \<open>parse_llm_clustering_response(response, column_info)\<close>; \<open>actual_column_names\<close> is
  the list of the \<open>column_name\<close> fields of \<open>column_info\<close>, the eligible columns.
\<close>

definition parse_llm_clustering_response ::
  "json_loads \<Rightarrow> (string \<Rightarrow> nat) \<Rightarrow> string \<Rightarrow> string list \<Rightarrow> py_error + json list" where
  "parse_llm_clustering_response loads iter_rank response actual_column_names =
     (case strip_code_fence response of
        Inl e \<Rightarrow> Inl e
      | Inr cleaned_response \<Rightarrow>
          (case loads cleaned_response of
             None \<Rightarrow> Inr (fallback_clusters actual_column_names)
           | Some clusters \<Rightarrow> validate_clusters iter_rank clusters actual_column_names))"

section \<open>Properties of the string functions\<close>


lemma not_space_backslash [simp]: "\<not> py_isspace backslash"
  by (simp add: py_isspace_def)

lemma space_is_space [simp]: "py_isspace (CHR '' '')"
  by (simp add: py_isspace_def)

lemma valid_escape_not_space: "valid_escape d \<Longrightarrow> \<not> py_isspace d"
  by (auto simp: valid_escape_def py_isspace_def)

lemma rstrip_Nil [simp]: "rstrip [] = []"
  by (simp add: rstrip_def)

lemma lstrip_Nil [simp]: "lstrip [] = []"
  by (simp add: lstrip_def)

lemma rstrip_Cons:
  "rstrip (c # cs) = (if py_isspace c \<and> rstrip cs = [] then [] else c # rstrip cs)"
  by (auto simp: rstrip_def dropWhile_append)

lemma rstrip_empty_iff: "rstrip s = [] \<longleftrightarrow> (\<forall>c \<in> set s. py_isspace c)"
  by (induction s) (auto simp: rstrip_Cons)

lemma lstrip_empty_iff: "lstrip s = [] \<longleftrightarrow> (\<forall>c \<in> set s. py_isspace c)"
  by (simp add: lstrip_def)

lemma lstrip_rstrip: "lstrip (rstrip s) = rstrip (lstrip s)"
proof (induction s)
  case Nil
  show ?case by simp
next
  case (Cons c cs)
  show ?case
  proof (cases "py_isspace c")
    case True
    have "rstrip cs = [] \<Longrightarrow> rstrip (lstrip cs) = []"
      using lstrip_empty_iff [of cs] rstrip_empty_iff [of cs] by simp
    with True Cons show ?thesis
      by (auto simp: rstrip_Cons lstrip_def)
  next
    case False
    then show ?thesis by (simp add: rstrip_Cons lstrip_def)
  qed
qed

lemma lstrip_idem [simp]: "lstrip (lstrip s) = lstrip s"
  by (simp add: lstrip_def)

lemma rstrip_idem [simp]: "rstrip (rstrip s) = rstrip s"
  by (simp add: rstrip_def)

lemma strip_idem: "strip (strip s) = strip s"
  by (simp add: strip_def lstrip_rstrip)

subsection \<open>Escapes that the canonicalizer leaves alone\<close>

lemma bad_escape_Cons_other: "c \<noteq> backslash \<Longrightarrow> bad_escape (c # xs) = bad_escape xs"
  by (cases xs) auto

lemma bad_escape_tail: "\<not> bad_escape (c # xs) \<Longrightarrow> \<not> bad_escape xs"
  by (cases xs) auto

lemma bad_escape_dropWhile: "\<not> bad_escape xs \<Longrightarrow> \<not> bad_escape (dropWhile P xs)"
  by (induction xs) (auto dest: bad_escape_tail)

lemma fix_escapes_id: "\<not> bad_escape x \<Longrightarrow> fix_escapes x = x"
  by (induction x rule: fix_escapes.induct) auto

lemma collapse_ws_keeps: "\<not> bad_escape x \<Longrightarrow> \<not> bad_escape (collapse_ws x)"
proof (induction x rule: collapse_ws.induct)
  case 1
  show ?case by simp
next
  case (2 c cs)
  show ?case
  proof (cases "py_isspace c")
    case True
    from "2.prems" have "\<not> bad_escape (dropWhile py_isspace cs)"
      by (blast dest: bad_escape_tail bad_escape_dropWhile)
    with True "2.IH"(1) show ?thesis
      by (simp add: bad_escape_Cons_other)
  next
    case False
    from "2.prems" have tl: "\<not> bad_escape cs" by (rule bad_escape_tail)
    with False "2.IH"(2) have ih: "\<not> bad_escape (collapse_ws cs)" by simp
    show ?thesis
    proof (cases cs)
      case Nil
      with False "2.prems" show ?thesis by simp
    next
      case (Cons d ds)
      show ?thesis
      proof (cases "c = backslash")
        case True
        with "2.prems" Cons have v: "valid_escape d" by simp
        then have "\<not> py_isspace d" by (rule valid_escape_not_space)
        with True v ih Cons False show ?thesis by simp
      next
        case c: False
        with False ih show ?thesis by (simp add: bad_escape_Cons_other)
      qed
    qed
  qed
qed

lemma lstrip_keeps: "\<not> bad_escape x \<Longrightarrow> \<not> bad_escape (lstrip x)"
  unfolding lstrip_def by (rule bad_escape_dropWhile)

lemma rstrip_keeps: "\<not> bad_escape x \<Longrightarrow> \<not> bad_escape (rstrip x)"
proof (induction x rule: bad_escape.induct)
  case 1
  show ?case by simp
next
  case (2 c)
  then show ?case by (simp add: rstrip_Cons)
next
  case (3 c d cs)
  from "3.prems" have c: "\<not> (c = backslash \<and> \<not> valid_escape d)" and t: "\<not> bad_escape (d # cs)"
    by simp_all
  from t "3.IH" have ih: "\<not> bad_escape (rstrip (d # cs))" by simp
  show ?case
  proof (cases "rstrip (d # cs) = []")
    case True
    then have "py_isspace d" by (simp add: rstrip_empty_iff)
    with c have "c \<noteq> backslash" by (auto dest: valid_escape_not_space)
    with True show ?thesis by (simp add: rstrip_Cons [of c])
  next
    case False
    then have eq: "rstrip (c # d # cs) = c # rstrip (d # cs)"
      by (simp add: rstrip_Cons [of c])
    show ?thesis
    proof (cases "c = backslash")
      case True
      with c have v: "valid_escape d" by simp
      then have "\<not> py_isspace d" by (rule valid_escape_not_space)
      then have "rstrip (d # cs) = d # rstrip cs" by (simp add: rstrip_Cons)
      with eq True v ih show ?thesis by simp
    next
      case False
      with eq ih show ?thesis by (simp add: bad_escape_Cons_other)
    qed
  qed
qed

lemma strip_keeps: "\<not> bad_escape x \<Longrightarrow> \<not> bad_escape (strip x)"
  by (simp add: strip_def lstrip_keeps rstrip_keeps)


lemma collapse_ws_Nil_iff [simp]: "collapse_ws z = [] \<longleftrightarrow> z = []"
  by (cases z) auto

lemma collapse_ws_hd: "\<not> py_isspace c \<Longrightarrow> collapse_ws (c # cs) = c # collapse_ws cs"
  by simp

lemma dropWhile_collapse_ws:
  "dropWhile py_isspace (collapse_ws z) = collapse_ws (dropWhile py_isspace z)"
proof (induction z rule: collapse_ws.induct)
  case 1
  show ?case by simp
next
  case (2 c cs)
  then show ?case by (cases "py_isspace c") simp_all
qed

lemma lstrip_collapse_ws: "lstrip (collapse_ws z) = collapse_ws (lstrip z)"
  by (simp add: lstrip_def dropWhile_collapse_ws)

lemma collapse_ws_idem: "collapse_ws (collapse_ws z) = collapse_ws z"
proof (induction z rule: collapse_ws.induct)
  case 1
  show ?case by simp
next
  case (2 c cs)
  then show ?case
    by (cases "py_isspace c") (simp_all add: dropWhile_collapse_ws)
qed

lemma rstrip_dropWhile:
  "rstrip (dropWhile py_isspace cs) = dropWhile py_isspace (rstrip cs)"
  using lstrip_rstrip [of cs] by (simp add: lstrip_def)

lemma all_dropWhile_iff:
  "(\<forall>c \<in> set (dropWhile P cs). P c) \<longleftrightarrow> (\<forall>c \<in> set cs. P c)"
  by (induction cs) auto

lemma rstrip_dropWhile_empty_iff:
  "dropWhile py_isspace (rstrip cs) = [] \<longleftrightarrow> rstrip cs = []"
proof -
  have "dropWhile py_isspace (rstrip cs) = [] \<longleftrightarrow> rstrip (dropWhile py_isspace cs) = []"
    by (simp only: rstrip_dropWhile)
  also have "\<dots> \<longleftrightarrow> (\<forall>c \<in> set cs. py_isspace c)"
    by (simp only: rstrip_empty_iff all_dropWhile_iff)
  finally show ?thesis by (simp only: rstrip_empty_iff)
qed

lemma rstrip_collapse_ws: "rstrip (collapse_ws z) = collapse_ws (rstrip z)"
proof (induction z rule: collapse_ws.induct)
  case 1
  show ?case by simp
next
  case (2 c cs)
  show ?case
  proof (cases "py_isspace c")
    case True
    with "2.IH"(1)
    have ih: "rstrip (collapse_ws (dropWhile py_isspace cs)) =
              collapse_ws (dropWhile py_isspace (rstrip cs))"
      by (simp only: rstrip_dropWhile)
    show ?thesis
    proof (cases "rstrip cs = []")
      case e: True
      then have "collapse_ws (dropWhile py_isspace (rstrip cs)) = []" by simp
      with True e ih show ?thesis by (simp add: rstrip_Cons)
    next
      case ne: False
      then have "collapse_ws (dropWhile py_isspace (rstrip cs)) \<noteq> []"
        by (simp only: collapse_ws_Nil_iff rstrip_dropWhile_empty_iff not_False_eq_True)
      with True ne ih show ?thesis by (simp add: rstrip_Cons)
    qed
  next
    case False
    with "2.IH"(2) show ?thesis by (simp add: rstrip_Cons)
  qed
qed

lemma normalise_ws_idem:
  "strip (collapse_ws (strip (collapse_ws z))) = strip (collapse_ws z)"
  by (simp add: strip_def lstrip_collapse_ws [symmetric] rstrip_collapse_ws [symmetric]
      collapse_ws_idem lstrip_rstrip)


subsection \<open>The line parser\<close>


lemma not_space_eq [simp]: "\<not> py_isspace (CHR ''='')"
  by (simp add: py_isspace_def)

lemma split_once_None_iff: "split_once c s = None \<longleftrightarrow> c \<notin> set s"
  by (induction s) (auto split: option.splits)

lemma split_once_append: "c \<notin> set a \<Longrightarrow> split_once c (a @ c # b) = Some (a, b)"
  by (induction a) auto

lemma split_once_SomeD:
  "split_once c s = Some (a, b) \<Longrightarrow> s = a @ c # b \<and> c \<notin> set a"
  by (induction s arbitrary: a) (auto split: if_splits option.splits)

lemma lstrip_append_sep:
  "\<not> py_isspace c \<Longrightarrow> lstrip (a @ c # b) = lstrip a @ c # b"
  by (induction a) (auto simp: lstrip_def)

lemma rstrip_append_sep:
  "\<not> py_isspace c \<Longrightarrow> rstrip (a @ c # b) = a @ c # rstrip b"
  by (induction a) (auto simp: rstrip_Cons)

lemma strip_around_sep:
  "\<not> py_isspace c \<Longrightarrow> strip (a @ c # b) = lstrip a @ c # rstrip b"
  by (simp add: strip_def lstrip_append_sep rstrip_append_sep)

lemma strip_lstrip [simp]: "strip (lstrip a) = strip a"
  by (simp add: strip_def)

lemma strip_rstrip [simp]: "strip (rstrip b) = strip b"
  by (simp add: strip_def lstrip_rstrip)

lemma set_lstrip_subset: "set (lstrip a) \<subseteq> set a"
  by (auto simp: lstrip_def dest: set_dropWhileD)

lemma set_rstrip_subset: "set (rstrip a) \<subseteq> set a"
proof
  fix x assume "x \<in> set (rstrip a)"
  then have "x \<in> set (dropWhile py_isspace (rev a))" by (simp add: rstrip_def)
  then have "x \<in> set (rev a)" by (rule set_dropWhileD)
  then show "x \<in> set a" by simp
qed

lemma set_strip_subset: "set (strip a) \<subseteq> set a"
  unfolding strip_def using set_rstrip_subset [of "lstrip a"] set_lstrip_subset [of a] by blast

lemma parse_mapping_line_spec: "parse_mapping_line line = spec_parse_line line"
proof (cases "split_once (CHR ''='') line")
  case None
  then have "CHR ''='' \<notin> set line" by (simp add: split_once_None_iff)
  then have "CHR ''='' \<notin> set (strip line)"
    using set_strip_subset [of line] by blast
  with None show ?thesis
    by (simp add: parse_mapping_line_def spec_parse_line_def)
next
  case (Some p)
  obtain a b where p: "p = (a, b)" by (cases p)
  with Some have line: "line = a @ CHR ''='' # b" and a: "CHR ''='' \<notin> set a"
    by (auto dest: split_once_SomeD)
  have s: "strip line = lstrip a @ CHR ''='' # rstrip b"
    by (simp add: line strip_around_sep)
  from a have "CHR ''='' \<notin> set (lstrip a)"
    using set_lstrip_subset [of a] by blast
  then have so: "split_once (CHR ''='') (strip line) = Some (lstrip a, rstrip b)"
    by (simp add: s split_once_append)
  have m: "CHR ''='' \<in> set (strip line)" by (simp add: s)
  show ?thesis
    by (simp add: parse_mapping_line_def spec_parse_line_def Some p so m Let_def)
qed

lemma parse_mapping_lines_spec: "parse_mapping_lines text = spec_parse_mapping text"
proof -
  have "parse_mapping_line = spec_parse_line"
    by (rule ext) (rule parse_mapping_line_spec)
  then show ?thesis
    by (simp only: parse_mapping_lines_def spec_parse_mapping_def)
qed


section \<open>Properties of the orchestration loops\<close>

subsection \<open>The generation loop\<close>


lemma store_result_Some:
  "store_result loads (Some f) (cid, p, u) d =
     AList.update cid
       (case f p of
          Inl e \<Rightarrow> if e = [] then none_strip_message else ''Error: '' @ e
        | Inr out \<Rightarrow> process_llm_response loads (Some out) cid) d"
  by (simp add: store_result_def call_llm_parallel_def process_llm_response_def
      split: sum.splits)

lemma fold_store_result_other:
  "cid \<notin> fst ` set tasks \<Longrightarrow>
   map_of (fold (store_result loads (Some f)) tasks d) cid = map_of d cid"
proof (induction tasks arbitrary: d)
  case Nil
  show ?case by simp
next
  case (Cons t ts)
  obtain c p u where t: "t = (c, p, u)" by (cases t)
  with Cons.prems have ne: "c \<noteq> cid" and rest: "cid \<notin> fst ` set ts" by auto
  from Cons.IH [OF rest] ne show ?case
    by (simp add: t store_result_Some update_conv')
qed

lemma fold_store_result_lookup:
  assumes "distinct (map fst tasks)" and "(cid, p, u) \<in> set tasks"
  shows "map_of (fold (store_result loads (Some f)) tasks d) cid =
     Some (case f p of
             Inl e \<Rightarrow> if e = [] then none_strip_message else ''Error: '' @ e
           | Inr out \<Rightarrow> process_llm_response loads (Some out) cid)"
  using assms
proof (induction tasks arbitrary: d)
  case Nil
  then show ?case by simp
next
  case (Cons t ts)
  show ?case
  proof (cases "t = (cid, p, u)")
    case True
    with Cons.prems have "cid \<notin> fst ` set ts" by auto
    then show ?thesis
      by (simp add: True fold_store_result_other store_result_Some update_conv')
  next
    case False
    with Cons.prems have "distinct (map fst ts)" and "(cid, p, u) \<in> set ts" by auto
    then show ?thesis by (simp add: Cons.IH)
  qed
qed

lemma generate_lookup:
  assumes "distinct (map fst tasks)" and "(cid, p, u) \<in> set tasks"
  shows "map_of (generate_mappings_for_all_columns loads (Some f) tasks) cid =
     Some (case f p of
             Inl e \<Rightarrow> if e = [] then none_strip_message else ''Error: '' @ e
           | Inr out \<Rightarrow> process_llm_response loads (Some out) cid)"
  using assms by (simp add: generate_mappings_for_all_columns_def fold_store_result_lookup)

lemma process_llm_response_pairs:
  "parse_mapping_lines (strip out) \<noteq> [] \<Longrightarrow>
   process_llm_response loads (Some out) cid = strip out"
  by (simp add: process_llm_response_def)

lemma process_llm_response_no_pairs:
  "parse_mapping_lines (strip out) = [] \<Longrightarrow>
   process_llm_response loads (Some out) cid =
     (case find_json_array (strip out) of
        None \<Rightarrow> parse_error_message cid
      | Some a \<Rightarrow> (case loads a of None \<Rightarrow> parse_error_message cid | Some v \<Rightarrow> a))"
  by (simp add: process_llm_response_def)

subsection \<open>The refinement loop\<close>

lemma refine_column_keys:
  "fst ` set (fst (refine_column loads llm mkp F e st)) = insert (fst e) (fst ` set (fst st))"
  by (cases e; cases st) (simp add: refine_column_def dom_update Let_def split: option.splits)

lemma fold_refine_keys:
  "fst ` set (fst (fold (refine_column loads llm mkp F) M st)) =
   fst ` set M \<union> fst ` set (fst st)"
  by (induction M arbitrary: st) (auto simp: refine_column_keys)

lemma refine_column_calls:
  "fst ` set (snd (refine_column loads llm mkp F e st)) \<subseteq> insert (fst e) (fst ` set (snd st))"
  by (cases e; cases st) (auto simp: refine_column_def Let_def split: option.splits)

lemma fold_refine_calls:
  "fst ` set (snd (fold (refine_column loads llm mkp F) M st)) \<subseteq>
   fst ` set M \<union> fst ` set (snd st)"
proof (induction M arbitrary: st)
  case Nil
  show ?case by simp
next
  case (Cons e es)
  from Cons.IH [of "refine_column loads llm mkp F e st"] refine_column_calls [of loads llm mkp F e st]
  show ?case by auto
qed

lemma refine_column_cong:
  "F (fst e) = F' (fst e) \<Longrightarrow> refine_column loads llm mkp F e st = refine_column loads llm mkp F' e st"
  by (cases e; cases st) (simp add: refine_column_def)

lemma fold_refine_cong:
  "\<forall>k \<in> fst ` set M. F k = F' k \<Longrightarrow>
   fold (refine_column loads llm mkp F) M st = fold (refine_column loads llm mkp F') M st"
proof (induction M arbitrary: st)
  case Nil
  show ?case by simp
next
  case (Cons e es)
  then have "F (fst e) = F' (fst e)" and "\<forall>k \<in> fst ` set es. F k = F' k" by auto
  with Cons.IH show ?case by (simp add: refine_column_cong [of F e F'])
qed

lemma refine_column_lookup_other:
  "fst e \<noteq> cid \<Longrightarrow>
   map_of (fst (refine_column loads llm mkp F e st)) cid = map_of (fst st) cid"
  by (cases e; cases st) (simp add: refine_column_def update_conv' Let_def split: option.splits)

lemma refine_column_calls_other:
  "fst e \<noteq> cid \<Longrightarrow>
   cid \<in> fst ` set (snd (refine_column loads llm mkp F e st)) \<longleftrightarrow> cid \<in> fst ` set (snd st)"
  by (cases e; cases st) (auto simp: refine_column_def Let_def split: option.splits)

lemma fold_refine_lookup_other:
  "cid \<notin> fst ` set M \<Longrightarrow>
   map_of (fst (fold (refine_column loads llm mkp F) M st)) cid = map_of (fst st) cid"
proof (induction M arbitrary: st)
  case Nil
  show ?case by simp
next
  case (Cons e es)
  then have "fst e \<noteq> cid" and "cid \<notin> fst ` set es" by auto
  with Cons.IH show ?case by (simp add: refine_column_lookup_other)
qed

lemma refine_column_lookup_self:
  "map_of (fst (refine_column loads llm mkp F (cid, m) st)) cid =
   Some (case F cid of
           None \<Rightarrow> m
         | Some fb \<Rightarrow> if fb \<noteq> []
                      then process_llm_response loads (Some (call_llm llm (mkp m fb))) cid
                      else m)"
  by (cases st) (simp add: refine_column_def update_conv' Let_def split: option.splits)

lemma fold_refine_lookup:
  assumes "distinct (map fst M)" and "(cid, m) \<in> set M"
  shows "map_of (fst (fold (refine_column loads llm mkp F) M st)) cid =
   Some (case F cid of
           None \<Rightarrow> m
         | Some fb \<Rightarrow> if fb \<noteq> []
                      then process_llm_response loads (Some (call_llm llm (mkp m fb))) cid
                      else m)"
  using assms
proof (induction M arbitrary: st)
  case Nil
  then show ?case by simp
next
  case (Cons e es)
  show ?case
  proof (cases "e = (cid, m)")
    case True
    with Cons.prems have "cid \<notin> fst ` set es" by auto
    then show ?thesis
      by (simp add: True fold_refine_lookup_other refine_column_lookup_self)
  next
    case False
    with Cons.prems have "distinct (map fst es)" and "(cid, m) \<in> set es" by auto
    then show ?thesis by (simp add: Cons.IH)
  qed
qed

lemma refine_column_no_call:
  "F (fst e) = None \<or> F (fst e) = Some [] \<Longrightarrow>
   snd (refine_column loads llm mkp F e st) = snd st"
  by (cases e; cases st) (auto simp: refine_column_def)

lemma fold_refine_no_call:
  assumes "F cid = None \<or> F cid = Some []"
  shows "cid \<in> fst ` set (snd (fold (refine_column loads llm mkp F) M st)) \<longleftrightarrow>
         cid \<in> fst ` set (snd st)"
proof (induction M arbitrary: st)
  case Nil
  show ?case by simp
next
  case (Cons e es)
  show ?case
  proof (cases "fst e = cid")
    case True
    with assms have "snd (refine_column loads llm mkp F e st) = snd st"
      by (simp add: refine_column_no_call)
    with Cons.IH show ?thesis by simp
  next
    case False
    with Cons.IH show ?thesis by (simp add: refine_column_calls_other)
  qed
qed


section \<open>Properties of the clustering validator\<close>



lemma split_pieces_nonempty: "sep \<noteq> [] \<Longrightarrow> split_pieces sep s \<noteq> []"
  by (subst split_pieces.simps) (simp split: option.splits)

lemma split_pieces_contains:
  "sep \<noteq> [] \<Longrightarrow> contains sep s \<Longrightarrow> 1 < length (split_pieces sep s)"
proof -
  assume ne: "sep \<noteq> []" and c: "contains sep s"
  then obtain a b where f: "find_sub sep s = Some (a, b)"
    by (auto simp: contains_def)
  with ne have "split_pieces sep s = a # split_pieces sep b"
    by (subst split_pieces.simps) simp
  moreover from ne have "split_pieces sep b \<noteq> []" by (rule split_pieces_nonempty)
  ultimately show ?thesis by (cases "split_pieces sep b") simp_all
qed

lemma strip_code_fence_total: "\<exists>t. strip_code_fence response = Inr t"
proof -
  let ?s = "strip response"
  show ?thesis
  proof (cases "contains ''```json'' ?s")
    case True
    then have "1 < length (split_pieces ''```json'' ?s)"
      by (intro split_pieces_contains) simp_all
    then have i: "item (split_pieces ''```json'' ?s) 1 = Inr (split_pieces ''```json'' ?s ! 1)"
      by (simp add: item_def)
    have "0 < length (split_pieces ''```'' (split_pieces ''```json'' ?s ! 1))"
      using split_pieces_nonempty [of "''```''"] by simp
    then have "\<exists>t. item (split_pieces ''```'' (split_pieces ''```json'' ?s ! 1)) 0 = Inr t"
      by (simp add: item_def)
    with True i show ?thesis
      by (simp add: strip_code_fence_def py_split_def)
  next
    case False
    show ?thesis
    proof (cases "contains ''```'' ?s")
      case True
      then have "1 < length (split_pieces ''```'' ?s)"
        by (intro split_pieces_contains) simp_all
      then have "\<exists>t. item (split_pieces ''```'' ?s) 1 = Inr t"
        by (simp add: item_def)
      with True False show ?thesis
        by (simp add: strip_code_fence_def py_split_def)
    next
      case f: False
      with False show ?thesis by (simp add: strip_code_fence_def)
    qed
  qed
qed

lemma all_columns_in_response_strings:
  "all_columns_in_response (map (\<lambda>g. JArr (map JStr g)) groups) = map JStr (concat groups)"
  by (induction groups) (simp_all add: all_columns_in_response_def)

lemma hashable_strings: "list_all hashable (map JStr xs)"
  by (induction xs) simp_all

lemma filter_JStr:
  "filter (\<lambda>col. col \<in> set (map JStr names)) (map JStr g) = map JStr (filter (\<lambda>c. c \<in> set names) g)"
  by (induction g) auto

lemma keep_actual_strings:
  "keep_actual names (JArr (map JStr g)) = JArr (map JStr (filter (\<lambda>c. c \<in> set names) g))"
  by (simp only: keep_actual.simps filter_JStr)

lemma keep_actual_singleton:
  "c \<in> set names \<Longrightarrow> keep_actual names (JArr [JStr c]) = JArr [JStr c]"
  by simp

lemma extra_columns_strings:
  "extra_columns names (map JStr xs) = map JStr (filter (\<lambda>c. c \<notin> set names) xs)"
  by (induction xs) (auto simp: extra_columns_def)

lemma missing_columns_strings:
  "missing_columns names (map JStr xs) = remdups (filter (\<lambda>c. c \<notin> set xs) names)"
proof -
  have "(\<lambda>c. JStr c \<notin> set (map JStr xs)) = (\<lambda>c. c \<notin> set xs)" by auto
  then show ?thesis by (simp only: missing_columns_def)
qed

lemma set_iteration_set [simp]: "set (set_iteration iter_rank xs) = set xs"
  by (simp add: set_iteration_def)

lemma set_iteration_distinct [simp]: "distinct (set_iteration iter_rank xs) = distinct xs"
  by (simp add: set_iteration_def)

text \<open>Every order in which a set can be visited is the order of some rank.\<close>
lemma position_map:
  "distinct ms \<Longrightarrow>
   map (\<lambda>c. length (takeWhile (\<lambda>x. x \<noteq> c) ms)) ms = [0..<length ms]"
proof (induction ms)
  case Nil
  show ?case by simp
next
  case (Cons a ms)
  then have "map (\<lambda>c. length (takeWhile (\<lambda>x. x \<noteq> c) (a # ms))) ms =
             map (\<lambda>c. Suc (length (takeWhile (\<lambda>x. x \<noteq> c) ms))) ms"
    by (intro map_cong refl) auto
  also have "\<dots> = map Suc (map (\<lambda>c. length (takeWhile (\<lambda>x. x \<noteq> c) ms)) ms)"
    by simp
  also from Cons have "\<dots> = map Suc [0..<length ms]" by simp
  finally show ?case by (simp add: map_Suc_upt upt_conv_Cons del: upt_Suc)
qed

lemma set_iteration_every_order:
  assumes "distinct ms" and "distinct xs" and "set ms = set xs"
  shows "set_iteration (\<lambda>c. length (takeWhile (\<lambda>x. x \<noteq> c) ms)) xs = ms"
proof -
  let ?r = "\<lambda>c. length (takeWhile (\<lambda>x. x \<noteq> c) ms)"
  from assms(1) have m: "map ?r ms = [0..<length ms]" by (rule position_map)
  then have dm: "distinct (map ?r ms)" and sm: "sorted (map ?r ms)" by simp_all
  from dm have inj: "inj_on ?r (set ms)" by (simp add: distinct_map)
  have "sort_key ?r xs = ms"
  proof (rule map_sorted_distinct_set_unique [of ?r])
    show "inj_on ?r (set (sort_key ?r xs) \<union> set ms)" using inj assms(3) by simp
    show "sorted (map ?r (sort_key ?r xs))" by simp
    show "distinct (map ?r (sort_key ?r xs))"
      using inj assms(2,3) by (simp add: distinct_map)
    show "sorted (map ?r ms)" by (rule sm)
    show "distinct (map ?r ms)" by (rule dm)
    show "set (sort_key ?r xs) = set ms" using assms(3) by simp
  qed
  then show ?thesis by (simp add: set_iteration_def)
qed

lemma set_iteration_missing_eligible:
  "set (set_iteration iter_rank (missing_columns names in_response)) \<subseteq> set names"
  by (auto simp: missing_columns_def)

lemma validate_clusters_well_formed:
  "validate_clusters iter_rank (JArr (map (\<lambda>g. JArr (map JStr g)) groups)) names =
     Inr (map (\<lambda>g. JArr (map JStr (filter (\<lambda>c. c \<in> set names) g))) groups @
          map (\<lambda>c. JArr [JStr c])
            (set_iteration iter_rank (missing_columns names (map JStr (concat groups)))))"
proof (cases "extra_columns names (map JStr (concat groups)) = []")
  case True
  then have "filter (\<lambda>c. c \<notin> set names) (concat groups) = []"
    by (simp add: extra_columns_strings)
  then have all: "\<forall>g \<in> set groups. \<forall>c \<in> set g. c \<in> set names"
    by (auto simp: filter_empty_conv)
  have "map (\<lambda>g. JArr (map JStr (filter (\<lambda>c. c \<in> set names) g))) groups =
        map (\<lambda>g. JArr (map JStr g)) groups"
    using all by (intro map_cong refl) (simp add: filter_id_conv)
  with True show ?thesis
    by (simp add: validate_clusters_def all_columns_in_response_strings hashable_strings Let_def)
next
  case False
  have "set ms \<subseteq> set names \<Longrightarrow>
        map (keep_actual names) (map (\<lambda>c. JArr [JStr c]) ms) = map (\<lambda>c. JArr [JStr c]) ms"
    for ms
    by (induction ms) auto
  then have m: "map (keep_actual names) (map (\<lambda>c. JArr [JStr c])
                  (set_iteration iter_rank (missing_columns names (map JStr (concat groups))))) =
           map (\<lambda>c. JArr [JStr c])
             (set_iteration iter_rank (missing_columns names (map JStr (concat groups))))"
    using set_iteration_missing_eligible by blast
  have g: "map (keep_actual names) (map (\<lambda>g. JArr (map JStr g)) groups) =
           map (\<lambda>g. JArr (map JStr (filter (\<lambda>c. c \<in> set names) g))) groups"
    by (induction groups) (simp_all only: list.map keep_actual_strings)
  from False show ?thesis
    by (simp add: validate_clusters_def all_columns_in_response_strings hashable_strings
        Let_def m g del: keep_actual.simps map_map)
qed

section \<open>Properties of the canonicalizer\<close>

lemma clean_brand_name_keeps_valid:
  assumes "\<not> bad_escape x"
  shows "clean_brand_name (clean_brand_name x) = clean_brand_name x"
proof -
  from assms have a: "clean_brand_name x = strip (collapse_ws x)"
    by (simp add: clean_brand_name_def fix_escapes_id)
  from assms have "\<not> bad_escape (strip (collapse_ws x))"
    by (intro strip_keeps collapse_ws_keeps)
  then have "clean_brand_name (strip (collapse_ws x)) = strip (collapse_ws (strip (collapse_ws x)))"
    by (simp add: clean_brand_name_def fix_escapes_id)
  with a show ?thesis by (simp add: normalise_ws_idem)
qed


lemma bad_escape_Cons: "bad_escape xs \<Longrightarrow> bad_escape (c # xs)"
  by (cases xs) auto

lemma fix_escapes_hd: "\<exists>ys. fix_escapes (d # cs) = d # ys"
  by (cases cs) auto

lemma bad_escape_fix: "bad_escape x \<Longrightarrow> bad_escape (fix_escapes x)"
proof (induction x rule: fix_escapes.induct)
  case 1
  then show ?case by simp
next
  case (2 c)
  then show ?case by (simp add: valid_escape_def)
next
  case (3 c d cs)
  obtain ys where ys: "fix_escapes (d # cs) = d # ys"
    using fix_escapes_hd by blast
  show ?case
  proof (cases "c = backslash \<and> \<not> valid_escape d")
    case True
    then show ?thesis by (simp add: ys)
  next
    case False
    with "3.prems" have "bad_escape (d # cs)" by auto
    with "3.IH" False have "bad_escape (fix_escapes (d # cs))" by auto
    with False show ?thesis by (auto intro: bad_escape_Cons)
  qed
qed

lemma bad_escape_dropWhile_space:
  "bad_escape xs \<Longrightarrow> bad_escape (dropWhile py_isspace xs)"
proof (induction xs)
  case Nil
  then show ?case by simp
next
  case (Cons c cs)
  show ?case
  proof (cases "py_isspace c")
    case True
    then have "c \<noteq> backslash" by auto
    with Cons.prems have "bad_escape cs" by (simp add: bad_escape_Cons_other)
    with Cons.IH True show ?thesis by simp
  next
    case False
    with Cons.prems show ?thesis by simp
  qed
qed

lemma collapse_ws_hd_invalid:
  "\<not> valid_escape d \<Longrightarrow> \<exists>e ys. collapse_ws (d # ds) = e # ys \<and> \<not> valid_escape e"
  by (cases "py_isspace d") (auto simp: valid_escape_def)

lemma bad_escape_collapse_ws: "bad_escape x \<Longrightarrow> bad_escape (collapse_ws x)"
proof (induction x rule: collapse_ws.induct)
  case 1
  then show ?case by simp
next
  case (2 c cs)
  show ?case
  proof (cases "py_isspace c")
    case True
    then have "c \<noteq> backslash" by auto
    with "2.prems" have "bad_escape cs" by (simp add: bad_escape_Cons_other)
    then have "bad_escape (dropWhile py_isspace cs)" by (rule bad_escape_dropWhile_space)
    with "2.IH"(1) True show ?thesis by (simp add: bad_escape_Cons)
  next
    case False
    show ?thesis
    proof (cases cs)
      case Nil
      with "2.prems" False show ?thesis by simp
    next
      case (Cons d ds)
      show ?thesis
      proof (cases "c = backslash \<and> \<not> valid_escape d")
        case True
        then obtain e ys where "collapse_ws (d # ds) = e # ys" and "\<not> valid_escape e"
          using collapse_ws_hd_invalid by blast
        with True False Cons show ?thesis by simp
      next
        case nb: False
        with "2.prems" Cons have "bad_escape cs" by auto
        with "2.IH"(2) False have "bad_escape (collapse_ws cs)" by simp
        with False show ?thesis by (simp add: bad_escape_Cons)
      qed
    qed
  qed
qed

lemma bad_escape_not_Nil: "bad_escape xs \<Longrightarrow> xs \<noteq> []"
  by auto

lemma bad_escape_rstrip: "bad_escape x \<Longrightarrow> bad_escape (rstrip x)"
proof (induction x rule: bad_escape.induct)
  case 1
  then show ?case by simp
next
  case (2 c)
  then show ?case by (simp add: rstrip_Cons)
next
  case (3 c d cs)
  show ?case
  proof (cases "c = backslash \<and> \<not> valid_escape d")
    case True
    then have "\<not> py_isspace c" by simp
    then have r: "rstrip (c # d # cs) = c # rstrip (d # cs)"
      by (simp add: rstrip_Cons [of c])
    show ?thesis
    proof (cases "rstrip (d # cs) = []")
      case e: True
      with r True show ?thesis by simp
    next
      case ne: False
      then have "rstrip (d # cs) = d # rstrip cs"
        by (auto simp: rstrip_Cons [of d] split: if_splits)
      with r True show ?thesis by simp
    qed
  next
    case False
    with "3.prems" have "bad_escape (d # cs)" by auto
    with "3.IH" have b: "bad_escape (rstrip (d # cs))" by simp
    then have "rstrip (d # cs) \<noteq> []" by (rule bad_escape_not_Nil)
    then have "rstrip (c # d # cs) = c # rstrip (d # cs)"
      by (simp add: rstrip_Cons [of c])
    with b show ?thesis by (simp add: bad_escape_Cons)
  qed
qed

lemma bad_escape_clean: "bad_escape x \<Longrightarrow> bad_escape (clean_brand_name x)"
  unfolding clean_brand_name_def strip_def lstrip_def
  by (intro bad_escape_rstrip bad_escape_dropWhile_space bad_escape_collapse_ws bad_escape_fix)

subsection \<open>Backslashes counted\<close>

lemma count_dropWhile_space:
  "count_list (dropWhile py_isspace s) backslash = count_list s backslash"
  by (induction s) auto

lemma count_collapse_ws: "count_list (collapse_ws s) backslash = count_list s backslash"
  by (induction s rule: collapse_ws.induct) (auto simp: count_dropWhile_space)

lemma count_rstrip: "count_list (rstrip s) backslash = count_list s backslash"
proof -
  have "count_list (rev t) backslash = count_list t backslash" for t :: string
    by (induction t) auto
  then show ?thesis by (simp add: rstrip_def count_dropWhile_space)
qed

lemma count_strip: "count_list (strip s) backslash = count_list s backslash"
  by (simp add: strip_def lstrip_def count_rstrip count_dropWhile_space)

lemma count_fix_le: "count_list s backslash \<le> count_list (fix_escapes s) backslash"
  by (induction s rule: fix_escapes.induct) auto

lemma count_fix_less:
  "bad_escape s \<Longrightarrow> count_list s backslash < count_list (fix_escapes s) backslash"
proof (induction s rule: fix_escapes.induct)
  case 1
  then show ?case by simp
next
  case (2 c)
  then show ?case by simp
next
  case (3 c d cs)
  show ?case
  proof (cases "c = backslash \<and> \<not> valid_escape d")
    case True
    with count_fix_le [of "d # cs"] show ?thesis by simp
  next
    case False
    with "3.prems" have "bad_escape (d # cs)" by auto
    with "3.IH" False show ?thesis by auto
  qed
qed

lemma count_clean:
  "count_list (clean_brand_name s) backslash = count_list (fix_escapes s) backslash"
  by (simp add: clean_brand_name_def count_strip count_collapse_ws)

lemma clean_brand_name_changes_bad:
  assumes "bad_escape x"
  shows "clean_brand_name (clean_brand_name x) \<noteq> clean_brand_name x"
proof
  assume eq: "clean_brand_name (clean_brand_name x) = clean_brand_name x"
  from assms have "bad_escape (clean_brand_name x)" by (rule bad_escape_clean)
  then have "count_list (clean_brand_name x) backslash <
             count_list (fix_escapes (clean_brand_name x)) backslash"
    by (rule count_fix_less)
  also have "\<dots> = count_list (clean_brand_name (clean_brand_name x)) backslash"
    by (simp only: count_clean)
  finally show False by (simp add: eq)
qed


section \<open>The value canonicalizer\<close>

text \<open>
  Claim C2 says that \<open>clean_brand_name\<close> is idempotent on every string.  It is not: the
  backslash that the first pass adds in front of an invalid escape makes a valid pair
  with the old one, and the old backslash is still followed by an invalid character, so
  the second pass doubles it again.  On \<open>\a\<close> the first pass gives two backslashes and
  \<open>a\<close>, the second three backslashes and \<open>a\<close>.
\<close>

theorem clean_brand_name_not_idempotent:
  "clean_brand_name (clean_brand_name [backslash, CHR ''a'']) \<noteq>
   clean_brand_name [backslash, CHR ''a'']"
  by (simp add: clean_brand_name_def strip_def lstrip_def rstrip_def py_isspace_def
      valid_escape_def)

text \<open>
  Claim C2, amended: \<open>clean_brand_name\<close> applied twice gives the result of applying it
  once exactly on the strings in which each backslash is followed by one of the
  recognized escape characters (in particular on every string without a backslash).
\<close>

theorem clean_brand_name_idempotent_iff:
  "clean_brand_name (clean_brand_name x) = clean_brand_name x \<longleftrightarrow> \<not> bad_escape x"
  using clean_brand_name_keeps_valid [of x] clean_brand_name_changes_bad [of x] by blast

theorem clean_brand_name_idempotent_iff_witness:
  "\<not> bad_escape (''  a  '' @ [backslash] @ ''n   b '') \<and>
   clean_brand_name (clean_brand_name (''  a  '' @ [backslash] @ ''n   b '')) =
   clean_brand_name (''  a  '' @ [backslash] @ ''n   b '')"
proof -
  have "\<not> bad_escape (''  a  '' @ [backslash] @ ''n   b '')"
    by (simp add: valid_escape_def)
  with clean_brand_name_idempotent_iff [of "''  a  '' @ [backslash] @ ''n   b ''"]
  show ?thesis by simp
qed

section \<open>The response parser\<close>

text \<open>
  Claim C4: for every text the line parser of the code computes what the specification
  describes (lines split at newlines, each line split at its first \<open>=\<close>, both sides
  trimmed, lines without \<open>=\<close> or with an empty side skipped, pairs in line order), and
  the text of the two lines \<open>A=B\<close> and \<open>C=D\<close>, each ended by a newline, parses to the
  two pairs \<open>(A, B)\<close> and \<open>(C, D)\<close>.
\<close>

theorem parse_mapping_lines_refines_spec:
  "parse_mapping_lines text = spec_parse_mapping text \<and>
   parse_mapping_lines (''A=B'' @ [newline] @ ''C=D'' @ [newline]) =
     [(''A'', ''B''), (''C'', ''D'')]"
proof
  show "parse_mapping_lines text = spec_parse_mapping text"
    by (rule parse_mapping_lines_spec)
  show "parse_mapping_lines (''A=B'' @ [newline] @ ''C=D'' @ [newline]) =
     [(''A'', ''B''), (''C'', ''D'')]"
    by (simp add: parse_mapping_lines_def parse_mapping_line_def strip_def lstrip_def
        rstrip_def py_isspace_def)
qed


text \<open>
  Claim C3 says that a response without any \<open>original=canonical\<close> pair is reported
  with its raw text and that the caller then stores the identity mapping of the column's
  Value Set.  The code does neither: for the response \<open>hello\<close> and the Value Set
  \<open>{A, B}\<close> the entry stored for the column is the fixed message, which does not contain
  the raw text, and which the line parser reads as one pair, not as \<open>A=A\<close>, \<open>B=B\<close>.
\<close>

theorem unparseable_response_stores_error_text:
  "map_of (generate_mappings_for_all_columns (\<lambda>s. None) (Some (\<lambda>p. Inr ''hello''))
             [(''col'', ''p'', [''A'', ''B''])]) ''col'' =
     Some ''Error: Could not parse response for col. Expected format: original_name=canonical_name''
   \<and> parse_mapping_lines
        ''Error: Could not parse response for col. Expected format: original_name=canonical_name'' =
       [(''Error: Could not parse response for col. Expected format: original_name'',
         ''canonical_name'')]
   \<and> parse_mapping_lines
        ''Error: Could not parse response for col. Expected format: original_name=canonical_name'' \<noteq>
       [(''A'', ''A''), (''B'', ''B'')]"
  by (simp add: generate_mappings_for_all_columns_def store_result_Some
      process_llm_response_def parse_mapping_lines_def parse_mapping_line_def
      find_json_array_def parse_error_message_def
      strip_def lstrip_def rstrip_def py_isspace_def)

text \<open>
  Claim C3, amended: for a response from which zero pairs are extracted,
  \<open>process_llm_response\<close> returns the text from the first \<open>[\<close> to the last \<open>]\<close> of the
  stripped response when \<open>json.loads\<close> accepts that text, and otherwise the message
  \<open>Error: Could not parse response for <column_id>. Expected format:
  original_name=canonical_name\<close>; the caller stores this return value as the entry of the
  column.  No identity mapping is built.
\<close>

theorem zero_pairs_result:
  assumes "distinct (map fst tasks)" and "(column_id, prompt, unique_values) \<in> set tasks"
    and "f prompt = Inr out" and "parse_mapping_lines (strip out) = []"
  shows "process_llm_response loads (Some out) column_id =
           (case find_json_array (strip out) of
              None \<Rightarrow> parse_error_message column_id
            | Some a \<Rightarrow> (case loads a of None \<Rightarrow> parse_error_message column_id | Some v \<Rightarrow> a))
         \<and> map_of (generate_mappings_for_all_columns loads (Some f) tasks) column_id =
           Some (process_llm_response loads (Some out) column_id)"
proof
  from assms(4) show "process_llm_response loads (Some out) column_id =
           (case find_json_array (strip out) of
              None \<Rightarrow> parse_error_message column_id
            | Some a \<Rightarrow> (case loads a of None \<Rightarrow> parse_error_message column_id | Some v \<Rightarrow> a))"
    by (rule process_llm_response_no_pairs)
  from assms(3) show "map_of (generate_mappings_for_all_columns loads (Some f) tasks) column_id =
           Some (process_llm_response loads (Some out) column_id)"
    by (simp add: generate_lookup [OF assms(1,2)])
qed

theorem zero_pairs_result_witness:
  "distinct (map fst [(''col'', ''p'', [''A'', ''B''])]) \<and>
   (''col'', ''p'', [''A'', ''B'']) \<in> set [(''col'', ''p'', [''A'', ''B''])] \<and>
   (\<lambda>p. Inr ''no pairs here'' :: string + string) ''p'' = Inr ''no pairs here'' \<and>
   parse_mapping_lines (strip ''no pairs here'') = [] \<and>
   process_llm_response (\<lambda>s. None) (Some ''no pairs here'') ''col'' = parse_error_message ''col'' \<and>
   map_of (generate_mappings_for_all_columns (\<lambda>s. None) (Some (\<lambda>p. Inr ''no pairs here''))
             [(''col'', ''p'', [''A'', ''B''])]) ''col'' = Some (parse_error_message ''col'')"
proof -
  have s: "strip ''no pairs here'' = ''no pairs here''"
    by (simp add: strip_def lstrip_def rstrip_def py_isspace_def)
  have p: "parse_mapping_lines ''no pairs here'' = []"
    by (simp add: parse_mapping_lines_def parse_mapping_line_def
        strip_def lstrip_def rstrip_def py_isspace_def)
  have j: "find_json_array ''no pairs here'' = None"
    by (simp add: find_json_array_def)
  have d: "distinct (map fst [(''col'', ''p'', [''A'', ''B''])])"
    and m: "(''col'', ''p'', [''A'', ''B'']) \<in> set [(''col'', ''p'', [''A'', ''B''])]"
    by simp_all
  have f: "(\<lambda>p. Inr ''no pairs here'' :: string + string) ''p'' = Inr ''no pairs here''"
    by simp
  have z: "parse_mapping_lines (strip ''no pairs here'') = []" by (simp only: s p)
  from zero_pairs_result [OF d m f z, of "\<lambda>s. None"] d m z
  show ?thesis by (simp add: s j)
qed

section \<open>Mapping generation\<close>

text \<open>
  Claim C1 says that the original values of a column's Mapping are exactly the column's
  Value Set, missing values being inserted as self-mapped entries.  The code never
  compares the response with \<open>unique_values\<close>: for the Value Set \<open>{A, B}\<close> and the
  response \<open>A=A\<close> the stored Mapping is \<open>A=A\<close>, whose only original value is \<open>A\<close>.
\<close>

theorem stored_mapping_misses_value:
  "map_of (generate_mappings_for_all_columns (\<lambda>s. None) (Some (\<lambda>p. Inr ''A=A''))
             [(''col'', ''p'', [''A'', ''B''])]) ''col'' = Some ''A=A''
   \<and> map fst (parse_mapping_lines ''A=A'') = [''A'']
   \<and> set (map fst (parse_mapping_lines ''A=A'')) \<noteq> set [''A'', ''B'']"
  by (simp add: generate_mappings_for_all_columns_def store_result_Some
      process_llm_response_def parse_mapping_lines_def parse_mapping_line_def
      strip_def lstrip_def rstrip_def py_isspace_def)

text \<open>
  Claim C1, amended: for every column, when the answer of the model contains at least
  one parseable \<open>original=canonical\<close> line, the stored Mapping is exactly the stripped
  answer, after the initial generation and after a refinement round in which the column
  has feedback.  Its original values are therefore the left-hand sides of the answer's
  lines, whatever the Value Set is; nothing is inserted for a value the answer leaves out.
\<close>

theorem stored_mapping_is_stripped_response:
  "(distinct (map fst tasks) \<and> (column_id, prompt, unique_values) \<in> set tasks \<and>
    f prompt = Inr out \<and> parse_mapping_lines (strip out) \<noteq> []
    \<longrightarrow> map_of (generate_mappings_for_all_columns loads (Some f) tasks) column_id =
          Some (strip out))
   \<and>
   (distinct (map fst all_column_mappings) \<and> (column_id, mapping_output) \<in> set all_column_mappings \<and>
    all_column_feedback column_id = Some feedback_list \<and> feedback_list \<noteq> [] \<and>
    f (refinement_prompt mapping_output feedback_list) = Inr out \<and>
    parse_mapping_lines (strip out) \<noteq> []
    \<longrightarrow> map_of (fst (process_feedback_for_all_columns loads (Some f) refinement_prompt
                       all_column_mappings all_column_feedback)) column_id =
          Some (strip out))"
proof (intro conjI impI)
  assume a: "distinct (map fst tasks) \<and> (column_id, prompt, unique_values) \<in> set tasks \<and>
    f prompt = Inr out \<and> parse_mapping_lines (strip out) \<noteq> []"
  then have "map_of (generate_mappings_for_all_columns loads (Some f) tasks) column_id =
    Some (process_llm_response loads (Some out) column_id)"
    by (simp add: generate_lookup [of tasks column_id prompt unique_values])
  with a show "map_of (generate_mappings_for_all_columns loads (Some f) tasks) column_id =
          Some (strip out)"
    by (simp add: process_llm_response_pairs)
next
  assume a: "distinct (map fst all_column_mappings) \<and>
    (column_id, mapping_output) \<in> set all_column_mappings \<and>
    all_column_feedback column_id = Some feedback_list \<and> feedback_list \<noteq> [] \<and>
    f (refinement_prompt mapping_output feedback_list) = Inr out \<and>
    parse_mapping_lines (strip out) \<noteq> []"
  then have c: "call_llm (Some f) (refinement_prompt mapping_output feedback_list) = strip out"
    by (simp add: call_llm_def)
  from a have p: "process_llm_response loads (Some (strip out)) column_id = strip out"
    by (simp add: process_llm_response_pairs strip_idem)
  from a have "map_of (fst (process_feedback_for_all_columns loads (Some f) refinement_prompt
                       all_column_mappings all_column_feedback)) column_id =
     Some (process_llm_response loads (Some (call_llm (Some f)
        (refinement_prompt mapping_output feedback_list))) column_id)"
    by (simp add: process_feedback_for_all_columns_def
        fold_refine_lookup [of all_column_mappings column_id mapping_output])
  with c p show "map_of (fst (process_feedback_for_all_columns loads (Some f) refinement_prompt
                       all_column_mappings all_column_feedback)) column_id =
          Some (strip out)"
    by simp
qed

theorem stored_mapping_is_stripped_response_witness:
  "(distinct (map fst [(''col'', ''p'', [''A'', ''B''])]) \<and>
    (''col'', ''p'', [''A'', ''B'']) \<in> set [(''col'', ''p'', [''A'', ''B''])] \<and>
    (\<lambda>p. Inr '' A=A '' :: string + string) ''p'' = Inr '' A=A '' \<and>
    parse_mapping_lines (strip '' A=A '') \<noteq> [] \<and>
    map_of (generate_mappings_for_all_columns (\<lambda>s. None) (Some (\<lambda>p. Inr '' A=A ''))
              [(''col'', ''p'', [''A'', ''B''])]) ''col'' = Some ''A=A'')
   \<and>
   (distinct (map fst [(''col'', ''A=A'')]) \<and> (''col'', ''A=A'') \<in> set [(''col'', ''A=A'')] \<and>
    [''col'' \<mapsto> [(''A'', ''B'')]] ''col'' = Some [(''A'', ''B'')] \<and> [(''A'', ''B'')] \<noteq> [] \<and>
    (\<lambda>p. Inr '' A=B '' :: string + string) ((\<lambda>m fb. m) ''A=A'' [(''A'', ''B'')]) = Inr '' A=B '' \<and>
    parse_mapping_lines (strip '' A=B '') \<noteq> [] \<and>
    map_of (fst (process_feedback_for_all_columns (\<lambda>s. None) (Some (\<lambda>p. Inr '' A=B ''))
                   (\<lambda>m fb. m) [(''col'', ''A=A'')] [''col'' \<mapsto> [(''A'', ''B'')]])) ''col'' =
      Some ''A=B'')"
proof -
  have s1: "strip '' A=A '' = ''A=A''" and s2: "strip '' A=B '' = ''A=B''"
    by (simp_all add: strip_def lstrip_def rstrip_def py_isspace_def)
  have p1: "parse_mapping_lines ''A=A'' \<noteq> []" and p2: "parse_mapping_lines ''A=B'' \<noteq> []"
    by (simp_all add: parse_mapping_lines_def parse_mapping_line_def
        strip_def lstrip_def rstrip_def py_isspace_def)
  from stored_mapping_is_stripped_response
    [of "[(''col'', ''p'', [''A'', ''B''])]" "''col''" "''p''" "[''A'', ''B'']"
        "\<lambda>p. Inr '' A=A ''" "'' A=A ''" "\<lambda>s. None" "[(''col'', ''A=A'')]" "''A=A''"
        "[''col'' \<mapsto> [(''A'', ''B'')]]" "[(''A'', ''B'')]" "\<lambda>m fb. m"]
  have g: "map_of (generate_mappings_for_all_columns (\<lambda>s. None) (Some (\<lambda>p. Inr '' A=A ''))
              [(''col'', ''p'', [''A'', ''B''])]) ''col'' = Some ''A=A''"
    by (simp add: s1 p1)
  from stored_mapping_is_stripped_response
    [of "[(''col'', ''p'', [''A'', ''B''])]" "''col''" "''p''" "[''A'', ''B'']"
        "\<lambda>p. Inr '' A=B ''" "'' A=B ''" "\<lambda>s. None" "[(''col'', ''A=A'')]" "''A=A''"
        "[''col'' \<mapsto> [(''A'', ''B'')]]" "[(''A'', ''B'')]" "\<lambda>m fb. m"]
  have r: "map_of (fst (process_feedback_for_all_columns (\<lambda>s. None) (Some (\<lambda>p. Inr '' A=B ''))
                   (\<lambda>m fb. m) [(''col'', ''A=A'')] [''col'' \<mapsto> [(''A'', ''B'')]])) ''col'' =
      Some ''A=B''"
    by (simp add: s2 p2)
  from g r show ?thesis by (simp add: s1 s2 p1 p2)
qed

text \<open>
  Claim C8: the tasks have pairwise distinct column identities, each task owning the
  entry of its column.  Whatever the order of completion, the entry of a task is the
  error marker \<open>Error: <message>\<close> when its request raised and the processed response
  otherwise; it is the entry the task produces when it runs alone, so no other task's
  failure changes it.
\<close>

theorem task_failure_is_isolated:
  assumes "distinct (map fst tasks)" and "(column_id, prompt, unique_values) \<in> set tasks"
  shows "map_of (generate_mappings_for_all_columns loads (Some f) tasks) column_id =
           Some (case f prompt of
                   Inl e \<Rightarrow> if e = [] then none_strip_message else ''Error: '' @ e
                 | Inr out \<Rightarrow> process_llm_response loads (Some out) column_id)
         \<and> map_of (generate_mappings_for_all_columns loads (Some f) tasks) column_id =
           map_of (generate_mappings_for_all_columns loads (Some f)
                     [(column_id, prompt, unique_values)]) column_id"
proof -
  have one: "distinct (map fst [(column_id, prompt, unique_values)])"
    and mem: "(column_id, prompt, unique_values) \<in> set [(column_id, prompt, unique_values)]"
    by simp_all
  show ?thesis
    by (simp only: generate_lookup [OF assms] generate_lookup [OF one mem])
qed

theorem task_failure_is_isolated_witness:
  "distinct (map fst [(''c1'', ''p1'', [''A'']), (''c2'', ''p2'', [''B'']), (''c3'', ''p3'', [''C''])])
   \<and> (''c1'', ''p1'', [''A'']) \<in> set [(''c1'', ''p1'', [''A'']), (''c2'', ''p2'', [''B'']), (''c3'', ''p3'', [''C''])]
   \<and> map_of (generate_mappings_for_all_columns (\<lambda>s. None)
         (Some (\<lambda>p. if p = ''p2'' then Inl ''timeout'' else Inr (''X=X'')))
         [(''c1'', ''p1'', [''A'']), (''c2'', ''p2'', [''B'']), (''c3'', ''p3'', [''C''])]) ''c1''
       = Some ''X=X''
   \<and> map_of (generate_mappings_for_all_columns (\<lambda>s. None)
         (Some (\<lambda>p. if p = ''p2'' then Inl ''timeout'' else Inr (''X=X'')))
         [(''c1'', ''p1'', [''A'']), (''c2'', ''p2'', [''B'']), (''c3'', ''p3'', [''C''])]) ''c2''
       = Some ''Error: timeout''
   \<and> map_of (generate_mappings_for_all_columns (\<lambda>s. None)
         (Some (\<lambda>p. if p = ''p2'' then Inl ''timeout'' else Inr (''X=X'')))
         [(''c1'', ''p1'', [''A'']), (''c2'', ''p2'', [''B'']), (''c3'', ''p3'', [''C''])]) ''c3''
       = Some ''X=X''"
proof -
  let ?ts = "[(''c1'', ''p1'', [''A'']), (''c2'', ''p2'', [''B'']), (''c3'', ''p3'', [''C''])]"
  let ?f = "\<lambda>p. if p = ''p2'' then Inl ''timeout'' else Inr (''X=X'')"
  have d: "distinct (map fst ?ts)" by simp
  have x: "process_llm_response (\<lambda>s. None) (Some ''X=X'') c = ''X=X''" for c
    by (simp add: process_llm_response_def parse_mapping_lines_def parse_mapping_line_def
        strip_def lstrip_def rstrip_def py_isspace_def)
  have m1: "(''c1'', ''p1'', [''A'']) \<in> set ?ts" and m2: "(''c2'', ''p2'', [''B'']) \<in> set ?ts"
    and m3: "(''c3'', ''p3'', [''C'']) \<in> set ?ts" by simp_all
  from task_failure_is_isolated [OF d m1, of "\<lambda>s. None" ?f]
       task_failure_is_isolated [OF d m2, of "\<lambda>s. None" ?f]
       task_failure_is_isolated [OF d m3, of "\<lambda>s. None" ?f]
  show ?thesis by (simp add: x)
qed

section \<open>Refinement\<close>

text \<open>
  Claim C7 says that a failure of the refinement request leaves the column's Mapping at
  its previous value.  The handler that keeps the previous value is never reached:
  \<open>call_llm\<close> catches the exception and returns a text starting with \<open>Error calling
  LLM\<close>, which \<open>process_llm_response\<close> turns into its own error message, and that
  message replaces the Mapping.  Here the Mapping \<open>A=A\<close> of the column is lost when the
  request raises \<open>timeout\<close>.
\<close>

theorem refinement_failure_replaces_mapping:
  "map_of (fst (process_feedback_for_all_columns (\<lambda>s. None) (Some (\<lambda>p. Inl ''timeout''))
                  refinement_prompt [(''col'', ''A=A'')] [''col'' \<mapsto> [(''A'', ''B'')]])) ''col'' =
     Some ''Error: Could not parse response for col. Expected format: original_name=canonical_name''
   \<and> map_of (fst (process_feedback_for_all_columns (\<lambda>s. None) (Some (\<lambda>p. Inl ''timeout''))
                  refinement_prompt [(''col'', ''A=A'')] [''col'' \<mapsto> [(''A'', ''B'')]])) ''col'' \<noteq>
     Some ''A=A''"
  by (simp add: process_feedback_for_all_columns_def refine_column_def call_llm_def
      process_llm_response_def parse_mapping_lines_def parse_mapping_line_def
      find_json_array_def parse_error_message_def
      strip_def lstrip_def rstrip_def py_isspace_def)

text \<open>
  Claim C9: a column without feedback in the round (no entry in the feedback table, or
  an empty list) keeps exactly its input Mapping, and no call of the model is made for
  that column.
\<close>

theorem no_feedback_keeps_mapping:
  assumes "distinct (map fst all_column_mappings)"
    and "(column_id, mapping_output) \<in> set all_column_mappings"
    and "all_column_feedback column_id = None \<or> all_column_feedback column_id = Some []"
  shows "map_of (fst (process_feedback_for_all_columns loads llm refinement_prompt
                        all_column_mappings all_column_feedback)) column_id = Some mapping_output
         \<and> column_id \<notin> fst ` set (snd (process_feedback_for_all_columns loads llm
                        refinement_prompt all_column_mappings all_column_feedback))"
proof
  from assms(3)
  show "map_of (fst (process_feedback_for_all_columns loads llm refinement_prompt
                        all_column_mappings all_column_feedback)) column_id = Some mapping_output"
    by (auto simp: process_feedback_for_all_columns_def fold_refine_lookup [OF assms(1,2)])
  from assms(3)
  show "column_id \<notin> fst ` set (snd (process_feedback_for_all_columns loads llm
                        refinement_prompt all_column_mappings all_column_feedback))"
    by (simp add: process_feedback_for_all_columns_def fold_refine_no_call)
qed

theorem no_feedback_keeps_mapping_witness:
  "distinct (map fst [(''c1'', ''A=A''), (''c2'', ''B=B'')]) \<and>
   (''c2'', ''B=B'') \<in> set [(''c1'', ''A=A''), (''c2'', ''B=B'')] \<and>
   ([''c1'' \<mapsto> [(''A'', ''Z'')], ''c2'' \<mapsto> []] ''c2'' = None \<or>
    [''c1'' \<mapsto> [(''A'', ''Z'')], ''c2'' \<mapsto> []] ''c2'' = Some []) \<and>
   map_of (fst (process_feedback_for_all_columns (\<lambda>s. None) (Some (\<lambda>p. Inr ''A=Z''))
                  (\<lambda>m fb. m) [(''c1'', ''A=A''), (''c2'', ''B=B'')]
                  [''c1'' \<mapsto> [(''A'', ''Z'')], ''c2'' \<mapsto> []])) ''c2'' = Some ''B=B'' \<and>
   ''c2'' \<notin> fst ` set (snd (process_feedback_for_all_columns (\<lambda>s. None) (Some (\<lambda>p. Inr ''A=Z''))
                  (\<lambda>m fb. m) [(''c1'', ''A=A''), (''c2'', ''B=B'')]
                  [''c1'' \<mapsto> [(''A'', ''Z'')], ''c2'' \<mapsto> []]))"
proof -
  have d: "distinct (map fst [(''c1'', ''A=A''), (''c2'', ''B=B'')])"
    and m: "(''c2'', ''B=B'') \<in> set [(''c1'', ''A=A''), (''c2'', ''B=B'')]"
    and z: "[''c1'' \<mapsto> [(''A'', ''Z'')], ''c2'' \<mapsto> []] ''c2'' = None \<or>
            [''c1'' \<mapsto> [(''A'', ''Z'')], ''c2'' \<mapsto> []] ''c2'' = Some []"
    by simp_all
  from no_feedback_keeps_mapping
    [of "[(''c1'', ''A=A''), (''c2'', ''B=B'')]" "''c2''" "''B=B''"
        "[''c1'' \<mapsto> [(''A'', ''Z'')], ''c2'' \<mapsto> []]"
        "\<lambda>s. None" "Some (\<lambda>p. Inr ''A=Z'')" "\<lambda>m fb. m", OF d m z] d m z
  show ?thesis by blast
qed

text \<open>
  Claim C10: the refined table has exactly the keys of the input table; every call of
  the model is made for a column of the input table; and the result does not depend on
  feedback stored under keys that are not in the input table.
\<close>

theorem refinement_keys:
  "fst ` set (fst (process_feedback_for_all_columns loads llm refinement_prompt
                     all_column_mappings all_column_feedback)) = fst ` set all_column_mappings
   \<and> fst ` set (snd (process_feedback_for_all_columns loads llm refinement_prompt
                     all_column_mappings all_column_feedback)) \<subseteq> fst ` set all_column_mappings
   \<and> ((\<forall>k \<in> fst ` set all_column_mappings. all_column_feedback k = other_feedback k) \<longrightarrow>
        process_feedback_for_all_columns loads llm refinement_prompt
          all_column_mappings other_feedback =
        process_feedback_for_all_columns loads llm refinement_prompt
          all_column_mappings all_column_feedback)"
proof (intro conjI impI)
  show "fst ` set (fst (process_feedback_for_all_columns loads llm refinement_prompt
                     all_column_mappings all_column_feedback)) = fst ` set all_column_mappings"
    by (simp add: process_feedback_for_all_columns_def fold_refine_keys)
  show "fst ` set (snd (process_feedback_for_all_columns loads llm refinement_prompt
                     all_column_mappings all_column_feedback)) \<subseteq> fst ` set all_column_mappings"
    using fold_refine_calls [of loads llm refinement_prompt all_column_feedback
        all_column_mappings "([], [])"]
    by (simp add: process_feedback_for_all_columns_def)
  assume "\<forall>k \<in> fst ` set all_column_mappings. all_column_feedback k = other_feedback k"
  then show "process_feedback_for_all_columns loads llm refinement_prompt
          all_column_mappings other_feedback =
        process_feedback_for_all_columns loads llm refinement_prompt
          all_column_mappings all_column_feedback"
    unfolding process_feedback_for_all_columns_def
    by (intro fold_refine_cong [symmetric])
qed

theorem refinement_keys_witness:
  "fst ` set [(''c1'', ''A=A'')] = {''c1''}
   \<and> [''c1'' \<mapsto> [(''A'', ''Z'')]] ''c1'' =
       [''c1'' \<mapsto> [(''A'', ''Z'')], ''zz'' \<mapsto> [(''X'', ''Y'')]] ''c1''
   \<and> fst ` set (fst (process_feedback_for_all_columns (\<lambda>s. None) (Some (\<lambda>p. Inr ''A=Z''))
                 (\<lambda>m fb. m) [(''c1'', ''A=A'')]
                 [''c1'' \<mapsto> [(''A'', ''Z'')], ''zz'' \<mapsto> [(''X'', ''Y'')]])) = {''c1''}
   \<and> process_feedback_for_all_columns (\<lambda>s. None) (Some (\<lambda>p. Inr ''A=Z'')) (\<lambda>m fb. m)
        [(''c1'', ''A=A'')] [''c1'' \<mapsto> [(''A'', ''Z'')], ''zz'' \<mapsto> [(''X'', ''Y'')]] =
      process_feedback_for_all_columns (\<lambda>s. None) (Some (\<lambda>p. Inr ''A=Z'')) (\<lambda>m fb. m)
        [(''c1'', ''A=A'')] [''c1'' \<mapsto> [(''A'', ''Z'')]]"
proof -
  have h: "\<forall>k \<in> fst ` set [(''c1'', ''A=A'')].
      [''c1'' \<mapsto> [(''A'', ''Z'')]] k = [''c1'' \<mapsto> [(''A'', ''Z'')], ''zz'' \<mapsto> [(''X'', ''Y'')]] k"
    by simp
  from refinement_keys
    [of "\<lambda>s. None" "Some (\<lambda>p. Inr ''A=Z'')" "\<lambda>m fb. m" "[(''c1'', ''A=A'')]"
        "[''c1'' \<mapsto> [(''A'', ''Z'')]]" "[''c1'' \<mapsto> [(''A'', ''Z'')], ''zz'' \<mapsto> [(''X'', ''Y'')]]"]
    refinement_keys
    [of "\<lambda>s. None" "Some (\<lambda>p. Inr ''A=Z'')" "\<lambda>m fb. m" "[(''c1'', ''A=A'')]"
        "[''c1'' \<mapsto> [(''A'', ''Z'')], ''zz'' \<mapsto> [(''X'', ''Y'')]]"
        "[''c1'' \<mapsto> [(''A'', ''Z'')]]"] h
  show ?thesis by simp
qed

section \<open>Column clustering\<close>

text \<open>
  Claim C5: for a response that decodes to a list of lists of strings, the validator
  returns the groups of the response, each without the names that are not eligible and
  otherwise unchanged, followed by one singleton group for every eligible column that no
  group of the response contains: the appended columns are, without repetition and in
  the order of the set iteration, exactly the eligible columns outside all groups.
\<close>

theorem clustering_repairs_partition:
  assumes "strip_code_fence response = Inr cleaned_response"
    and "loads cleaned_response = Some (JArr (map (\<lambda>g. JArr (map JStr g)) groups))"
  shows "\<exists>appended.
           parse_llm_clustering_response loads iter_rank response actual_column_names =
             Inr (map (\<lambda>g. JArr (map JStr (filter (\<lambda>c. c \<in> set actual_column_names) g)))
                    groups @
                  map (\<lambda>c. JArr [JStr c]) appended)
           \<and> appended =
               sort_key iter_rank
                 (remdups (filter (\<lambda>c. c \<notin> set (concat groups)) actual_column_names))
           \<and> distinct appended
           \<and> set appended = set actual_column_names - (\<Union>g \<in> set groups. set g)"
proof -
  let ?appended = "set_iteration iter_rank
                     (missing_columns actual_column_names (map JStr (concat groups)))"
  have "parse_llm_clustering_response loads iter_rank response actual_column_names =
          Inr (map (\<lambda>g. JArr (map JStr (filter (\<lambda>c. c \<in> set actual_column_names) g)))
                 groups @
               map (\<lambda>c. JArr [JStr c]) ?appended)"
    by (simp add: parse_llm_clustering_response_def assms validate_clusters_well_formed)
  moreover have "?appended =
      sort_key iter_rank
        (remdups (filter (\<lambda>c. c \<notin> set (concat groups)) actual_column_names))"
    by (simp only: set_iteration_def missing_columns_strings)
  moreover have "distinct ?appended"
    by (simp add: missing_columns_strings)
  moreover have "set ?appended = set actual_column_names - (\<Union>g \<in> set groups. set g)"
    by (auto simp: missing_columns_strings)
  ultimately show ?thesis by blast
qed

theorem clustering_repairs_partition_witness:
  "strip_code_fence (''[['' @ [CHR 0x22] @ ''a'' @ [CHR 0x22] @ '', '' @ [CHR 0x22] @ ''zz'' @
       [CHR 0x22] @ '']]'') =
     Inr (''[['' @ [CHR 0x22] @ ''a'' @ [CHR 0x22] @ '', '' @ [CHR 0x22] @ ''zz'' @
       [CHR 0x22] @ '']]'') \<and>
   parse_llm_clustering_response
     (\<lambda>s. Some (JArr (map (\<lambda>g. JArr (map JStr g)) [[''a'', ''zz'']])))
     (\<lambda>c. if c = ''c'' then 0 else 1)
     (''[['' @ [CHR 0x22] @ ''a'' @ [CHR 0x22] @ '', '' @ [CHR 0x22] @ ''zz'' @
       [CHR 0x22] @ '']]'')
     [''a'', ''b'', ''c''] =
   Inr [JArr [JStr ''a''], JArr [JStr ''c''], JArr [JStr ''b'']]"
proof -
  let ?r = "''[['' @ [CHR 0x22] @ ''a'' @ [CHR 0x22] @ '', '' @ [CHR 0x22] @ ''zz'' @
       [CHR 0x22] @ '']]''"
  let ?loads = "\<lambda>s::string. Some (JArr (map (\<lambda>g. JArr (map JStr g)) [[''a'', ''zz'']]))"
  let ?rank = "\<lambda>c::string. if c = ''c'' then 0 else (1::nat)"
  have c: "strip_code_fence ?r = Inr ?r"
    by (simp add: strip_code_fence_def contains_def strip_def lstrip_def rstrip_def
        py_isspace_def)
  have l: "?loads ?r = Some (JArr (map (\<lambda>g. JArr (map JStr g)) [[''a'', ''zz'']]))"
    by simp
  from clustering_repairs_partition
    [of ?r ?r ?loads "[[''a'', ''zz'']]" ?rank "[''a'', ''b'', ''c'']", OF c l] c
  show ?thesis by simp
qed

text \<open>
  Claim C6 says that every response that is not a valid nested list, a value that is not
  a list included, yields one singleton group per eligible column.  For a decoded value
  that is not a list the code returns the empty list of groups instead: the response
  \<open>5\<close> for the eligible columns \<open>a\<close> and \<open>b\<close> gives no group at all.
\<close>

theorem non_list_response_gives_no_groups:
  "parse_llm_clustering_response (\<lambda>s. if s = ''5'' then Some (JNum 5) else None) (\<lambda>c. 0)
     ''5'' [''a'', ''b''] = Inr []
   \<and> parse_llm_clustering_response (\<lambda>s. if s = ''5'' then Some (JNum 5) else None) (\<lambda>c. 0)
     ''5'' [''a'', ''b''] \<noteq> Inr [JArr [JStr ''a''], JArr [JStr ''b'']]"
  by (simp add: parse_llm_clustering_response_def strip_code_fence_def contains_def
      validate_clusters_def strip_def lstrip_def rstrip_def py_isspace_def)

text \<open>
  Claim C6, amended: when the cleaned response is not JSON (\<open>json.loads\<close> raises
  \<open>JSONDecodeError\<close>), \<open>parse_llm_clustering_response\<close> returns one singleton group per
  eligible column; when it decodes to a value that is not a list, the function returns
  the empty list of groups.
\<close>

theorem clustering_parse_failure:
  assumes "strip_code_fence response = Inr cleaned_response"
  shows "(loads cleaned_response = None \<longrightarrow>
            parse_llm_clustering_response loads iter_rank response actual_column_names =
              Inr (map (\<lambda>col. JArr [JStr col]) actual_column_names))
         \<and> (loads cleaned_response = Some v \<and> \<not> is_list v \<longrightarrow>
            parse_llm_clustering_response loads iter_rank response actual_column_names =
              Inr [])"
proof (intro conjI impI)
  assume "loads cleaned_response = None"
  with assms
  show "parse_llm_clustering_response loads iter_rank response actual_column_names =
              Inr (map (\<lambda>col. JArr [JStr col]) actual_column_names)"
    by (simp add: parse_llm_clustering_response_def fallback_clusters_def)
next
  assume "loads cleaned_response = Some v \<and> \<not> is_list v"
  with assms
  show "parse_llm_clustering_response loads iter_rank response actual_column_names = Inr []"
    by (cases v) (simp_all add: parse_llm_clustering_response_def validate_clusters_def)
qed

theorem clustering_parse_failure_witness:
  "strip_code_fence ''Error calling LLM: timeout'' = Inr ''Error calling LLM: timeout'' \<and>
   (\<lambda>s. if s = ''5'' then Some (JNum 5) else None) ''Error calling LLM: timeout'' = None \<and>
   parse_llm_clustering_response (\<lambda>s. if s = ''5'' then Some (JNum 5) else None) (\<lambda>c. 0)
     ''Error calling LLM: timeout'' [''a'', ''b''] = Inr [JArr [JStr ''a''], JArr [JStr ''b'']] \<and>
   strip_code_fence '' 5 '' = Inr ''5'' \<and>
   (\<lambda>s. if s = ''5'' then Some (JNum 5) else None) ''5'' = Some (JNum 5) \<and>
   \<not> is_list (JNum 5) \<and>
   parse_llm_clustering_response (\<lambda>s. if s = ''5'' then Some (JNum 5) else None) (\<lambda>c. 0)
     '' 5 '' [''a'', ''b''] = Inr []"
proof -
  let ?loads = "\<lambda>s. if s = ''5'' then Some (JNum 5) else None"
  have c1: "strip_code_fence ''Error calling LLM: timeout'' = Inr ''Error calling LLM: timeout''"
    by (simp add: strip_code_fence_def contains_def strip_def lstrip_def rstrip_def
        py_isspace_def)
  have c2: "strip_code_fence '' 5 '' = Inr ''5''"
    by (simp add: strip_code_fence_def contains_def strip_def lstrip_def rstrip_def
        py_isspace_def)
  from clustering_parse_failure [OF c1, of ?loads "\<lambda>c. 0" "[''a'', ''b'']" "JNum 5"]
       clustering_parse_failure [OF c2, of ?loads "\<lambda>c. 0" "[''a'', ''b'']" "JNum 5"] c1 c2
  show ?thesis by simp
qed

end
